theory Spec2Isabelle
  imports Complex_Main "HOL-Library.AList" "HOL-Library.Stream"
begin

section \<open>Snapshots handed to the simulation engine\<close>

text \<open>
  The engine of \<^verbatim>\<open>app/core/simulation.py\<close> reads rows of the tables declared in
  \<^verbatim>\<open>app/models/database.py\<close>. Node ids are Python integers, floats are idealised as
  reals (no rounding is modelled), a Python \<^verbatim>\<open>dict\<close> is an association list that
  keeps the insertion order of its keys (\<open>AList.update\<close> rewrites a present key in
  place and appends an absent one, as assignment to a \<^verbatim>\<open>dict\<close> does).
\<close>

record node =
  n_id :: int
  n_name :: string
  n_node_type :: string
  n_status :: string
  n_x_position :: real
  n_y_position :: real

record connection =
  c_id :: int
  c_source_node_id :: int
  c_destination_node_id :: int
  c_connection_type :: string
  c_bandwidth_mbps :: real
  c_latency_ms :: real
  c_status :: string

record message =
  m_id :: int
  m_source_node_id :: int
  m_destination_node_id :: int
  m_packet_size_bytes :: int

datatype anomaly_type =
  PACKET_LOSS | DELAY | CORRUPTION | WRONG_DELIVERY | OUT_OF_ORDER | CONNECTION_LOSS

text \<open>
  The \<^verbatim>\<open>parameters\<close> column is a JSON column that may hold \<^verbatim>\<open>null\<close>: \<open>None\<close>
  here, and a dictionary from strings to JSON values otherwise (\<open>JOther\<close> stands for
  an array or an object).
\<close>

datatype json = JNumber real | JBool bool | JString string | JNull | JOther

record anomaly =
  a_id :: int
  a_anomaly_type :: anomaly_type
  a_affected_node_id :: "int option"
  a_probability :: real
  a_parameters :: "(string \<times> json) list option"
  a_is_active :: bool

datatype py_error =
  CancelledError | AttributeError | TypeError | IndexError | ZeroDivisionError

section \<open>NetworkGraph\<close>

subsection \<open>The undirected graph of the graph library\<close>

text \<open>
  \<^verbatim>\<open>nx.Graph\<close> keeps two dictionaries: \<^verbatim>\<open>_node\<close> from a vertex to its attribute
  dictionary and \<^verbatim>\<open>_adj\<close> from a vertex to the dictionary of its neighbours, each
  neighbour carrying the attribute dictionary of the edge. A vertex that only
  \<^verbatim>\<open>add_edge\<close> created has the empty attribute dictionary, here \<open>None\<close>.
\<close>

record node_data =
  nd_name :: string
  nd_node_type :: string
  nd_status :: string
  nd_x :: real
  nd_y :: real

record edge_data =
  ed_connection_id :: int
  ed_bandwidth :: real
  ed_latency :: real
  ed_connection_type :: string

record graph =
  g_node :: "(int \<times> node_data option) list"
  g_adj :: "(int \<times> (int \<times> edge_data) list) list"

text \<open>What a call into the graph library can raise.\<close>

datatype nx_error = NodeNotFound | NetworkXNoPath | KeyError

definition nx_empty :: graph where
  "nx_empty = \<lparr>g_node = [], g_adj = []\<rparr>"

definition nx_has_node :: "graph \<Rightarrow> int \<Rightarrow> bool" where
  "nx_has_node g n = (map_of (g_node g) n \<noteq> None)"

definition nx_nodes :: "graph \<Rightarrow> int list" where
  "nx_nodes g = map fst (g_node g)"

definition nx_neighbors :: "graph \<Rightarrow> int \<Rightarrow> (int \<times> edge_data) list" where
  "nx_neighbors g u = (case map_of (g_adj g) u of None \<Rightarrow> [] | Some nb \<Rightarrow> nb)"

text \<open>
  \<^verbatim>\<open>add_node(n, **attr)\<close>: a new vertex gets an empty neighbour dictionary and the
  attributes; on a present vertex the attributes are updated (all five keys are passed
  by the caller, so they are replaced).
\<close>

definition nx_add_node :: "int \<Rightarrow> node_data \<Rightarrow> graph \<Rightarrow> graph" where
  "nx_add_node n d g =
     (if nx_has_node g n then g\<lparr>g_node := AList.update n (Some d) (g_node g)\<rparr>
      else g\<lparr>g_node := g_node g @ [(n, Some d)], g_adj := g_adj g @ [(n, [])]\<rparr>)"

text \<open>The first lines of \<^verbatim>\<open>add_edge\<close>: an endpoint that is no vertex yet becomes one,
  with empty attributes.\<close>

definition nx_touch :: "int \<Rightarrow> graph \<Rightarrow> graph" where
  "nx_touch n g =
     (if nx_has_node g n then g
      else g\<lparr>g_node := g_node g @ [(n, None)], g_adj := g_adj g @ [(n, [])]\<rparr>)"

definition nx_set_adj :: "int \<Rightarrow> int \<Rightarrow> edge_data \<Rightarrow> graph \<Rightarrow> graph" where
  "nx_set_adj u v d g =
     g\<lparr>g_adj := AList.update u (AList.update v d (nx_neighbors g u)) (g_adj g)\<rparr>"

text \<open>
  \<^verbatim>\<open>add_edge(u, v, **attr)\<close>: both endpoints are made vertices, then the edge's
  dictionary (the caller passes all four keys, so an older edge between the two is
  overwritten) is stored under \<^verbatim>\<open>_adj[u][v]\<close> and \<^verbatim>\<open>_adj[v][u]\<close>.
\<close>

definition nx_add_edge :: "int \<Rightarrow> int \<Rightarrow> edge_data \<Rightarrow> graph \<Rightarrow> graph" where
  "nx_add_edge u v d g = nx_set_adj v u d (nx_set_adj u v d (nx_touch v (nx_touch u g)))"

definition nx_has_edge :: "graph \<Rightarrow> int \<Rightarrow> int \<Rightarrow> bool" where
  "nx_has_edge g u v = (map_of (nx_neighbors g u) v \<noteq> None)"

text \<open>
  The depth-first enumeration behind \<^verbatim>\<open>all_simple_paths\<close>: \<open>visited\<close> is the path
  walked so far, ending in \<open>u\<close>; the neighbours of \<open>u\<close> are tried in the order of
  its neighbour dictionary; a neighbour on the path is skipped, the target closes a path
  and is not walked through, any other neighbour is entered while the path has fewer
  than \<^verbatim>\<open>cutoff\<close> edges. The first argument counts the edges still allowed.
\<close>

fun simple_paths_from :: "nat \<Rightarrow> graph \<Rightarrow> int \<Rightarrow> int list \<Rightarrow> int \<Rightarrow> int list list" where
  "simple_paths_from 0 g t visited u = []"
| "simple_paths_from (Suc k) g t visited u =
     concat (map (\<lambda>c. if c \<in> set visited then []
                       else if c = t then [visited @ [c]]
                       else simple_paths_from k g t (visited @ [c]) c)
                 (map fst (nx_neighbors g u)))"

text \<open>
  \<^verbatim>\<open>nx.all_simple_paths(G, source, target, cutoff)\<close>. A source or a target that is
  no vertex raises \<^verbatim>\<open>NodeNotFound\<close>. For \<open>source = target\<close> the library yields the
  one-vertex path (its releases before 3.2 yielded nothing there).
\<close>

definition nx_all_simple_paths :: "graph \<Rightarrow> int \<Rightarrow> int \<Rightarrow> nat \<Rightarrow> nx_error + int list list" where
  "nx_all_simple_paths g source target cutoff =
     (if \<not> nx_has_node g source then Inl NodeNotFound
      else if \<not> nx_has_node g target then Inl NodeNotFound
      else if source = target then Inr [[source]]
      else Inr (simple_paths_from cutoff g target [source] source))"









subsection \<open>The methods of \<^verbatim>\<open>NetworkGraph\<close>\<close>

definition node_attrs :: "node \<Rightarrow> node_data" where
  "node_attrs n = \<lparr>nd_name = n_name n, nd_node_type = n_node_type n, nd_status = n_status n,
                   nd_x = n_x_position n, nd_y = n_y_position n\<rparr>"

definition edge_attrs :: "connection \<Rightarrow> edge_data" where
  "edge_attrs c = \<lparr>ed_connection_id = c_id c, ed_bandwidth = c_bandwidth_mbps c,
                   ed_latency = c_latency_ms c, ed_connection_type = c_connection_type c\<rparr>"

definition add_connection :: "connection \<Rightarrow> graph \<Rightarrow> graph" where
  "add_connection c g =
     (if c_status c = ''active''
      then nx_add_edge (c_source_node_id c) (c_destination_node_id c) (edge_attrs c) g
      else g)"

definition build_from_session_data :: "node list \<Rightarrow> connection list \<Rightarrow> graph" where
  "build_from_session_data nodes connections =
     fold add_connection connections
       (fold (\<lambda>n. nx_add_node (n_id n) (node_attrs n)) nodes nx_empty)"


definition find_all_paths :: "graph \<Rightarrow> int \<Rightarrow> int \<Rightarrow> nat \<Rightarrow> int list list" where
  "find_all_paths g source_id destination_id max_paths =
     (case nx_all_simple_paths g source_id destination_id 10 of
        Inl _ \<Rightarrow> []
      | Inr paths \<Rightarrow> take max_paths (sort_key length paths))"

definition get_connection_info :: "graph \<Rightarrow> int \<Rightarrow> int \<Rightarrow> edge_data option" where
  "get_connection_info g node1_id node2_id =
     (if nx_has_edge g node1_id node2_id then map_of (nx_neighbors g node1_id) node2_id
      else None)"

section \<open>AnomalyEngine\<close>

text \<open>
  The random source of the process: \<open>draws\<close> are the values that successive calls of
  \<^verbatim>\<open>random.random()\<close> return, \<open>picks\<close> the numbers from which successive calls of
  \<^verbatim>\<open>random.choice\<close> take their index. Every function that draws returns the source
  it leaves behind.
\<close>

record rng =
  draws :: "real stream"
  picks :: "nat stream"

type_synonym anomaly_engine = "(int \<times> anomaly) list"

text \<open>\<^verbatim>\<open>{a.id: a for a in anomalies if a.is_active}\<close>\<close>

definition anomaly_engine_init :: "anomaly list \<Rightarrow> anomaly_engine" where
  "anomaly_engine_init anomalies =
     fold (\<lambda>a. AList.update (a_id a) a) (filter a_is_active anomalies) []"

definition should_apply_anomaly :: "anomaly \<Rightarrow> rng \<Rightarrow> bool \<times> rng" where
  "should_apply_anomaly a r = (shd (draws r) < a_probability a, r\<lparr>draws := stl (draws r)\<rparr>)"

definition in_scope :: "anomaly_type \<Rightarrow> int \<Rightarrow> anomaly \<Rightarrow> bool" where
  "in_scope ty current_node_id a =
     (a_anomaly_type a = ty \<and>
      (a_affected_node_id a = None \<or> a_affected_node_id a = Some current_node_id))"

fun packet_loss_loop :: "anomaly list \<Rightarrow> int \<Rightarrow> rng \<Rightarrow> bool \<times> rng" where
  "packet_loss_loop [] current_node_id r = (False, r)"
| "packet_loss_loop (a # as) current_node_id r =
     (if in_scope PACKET_LOSS current_node_id a
      then (case should_apply_anomaly a r of
              (True, r') \<Rightarrow> (True, r')
            | (False, r') \<Rightarrow> packet_loss_loop as current_node_id r')
      else packet_loss_loop as current_node_id r)"

definition apply_packet_loss :: "anomaly_engine \<Rightarrow> int \<Rightarrow> rng \<Rightarrow> bool \<times> rng" where
  "apply_packet_loss eng current_node_id r = packet_loss_loop (map snd eng) current_node_id r"

text \<open>\<^verbatim>\<open>anomaly.parameters.get("additional_delay_ms", 1000)\<close>\<close>

definition additional_delay_ms :: "anomaly \<Rightarrow> py_error + json" where
  "additional_delay_ms a =
     (case a_parameters a of
        None \<Rightarrow> Inl AttributeError
      | Some ps \<Rightarrow> (case map_of ps ''additional_delay_ms'' of
                      None \<Rightarrow> Inr (JNumber 1000)
                    | Some v \<Rightarrow> Inr v))"

text \<open>\<^verbatim>\<open>base_delay + additional_delay\<close> for a float on the left: a number is added, a
  truth value counts as 1 or 0, anything else raises \<^verbatim>\<open>TypeError\<close>.\<close>

definition float_add :: "real \<Rightarrow> json \<Rightarrow> py_error + real" where
  "float_add x v =
     (case v of
        JNumber y \<Rightarrow> Inr (x + y)
      | JBool b \<Rightarrow> Inr (x + (if b then 1 else 0))
      | JString _ \<Rightarrow> Inl TypeError
      | JNull \<Rightarrow> Inl TypeError
      | JOther \<Rightarrow> Inl TypeError)"

fun delay_loop :: "anomaly list \<Rightarrow> int \<Rightarrow> real \<Rightarrow> rng \<Rightarrow> (py_error + real) \<times> rng" where
  "delay_loop [] current_node_id base_delay r = (Inr base_delay, r)"
| "delay_loop (a # as) current_node_id base_delay r =
     (if in_scope DELAY current_node_id a
      then (case should_apply_anomaly a r of
              (True, r') \<Rightarrow>
                (case additional_delay_ms a of
                   Inl e \<Rightarrow> (Inl e, r')
                 | Inr additional_delay \<Rightarrow> (float_add base_delay additional_delay, r'))
            | (False, r') \<Rightarrow> delay_loop as current_node_id base_delay r')
      else delay_loop as current_node_id base_delay r)"

definition apply_delay :: "anomaly_engine \<Rightarrow> int \<Rightarrow> real \<Rightarrow> rng \<Rightarrow> (py_error + real) \<times> rng" where
  "apply_delay eng current_node_id base_delay r =
     delay_loop (map snd eng) current_node_id base_delay r"

fun corruption_loop :: "anomaly list \<Rightarrow> int \<Rightarrow> rng \<Rightarrow> bool \<times> rng" where
  "corruption_loop [] current_node_id r = (False, r)"
| "corruption_loop (a # as) current_node_id r =
     (if in_scope CORRUPTION current_node_id a
      then (case should_apply_anomaly a r of
              (True, r') \<Rightarrow> (True, r')
            | (False, r') \<Rightarrow> corruption_loop as current_node_id r')
      else corruption_loop as current_node_id r)"

definition apply_corruption :: "anomaly_engine \<Rightarrow> int \<Rightarrow> rng \<Rightarrow> bool \<times> rng" where
  "apply_corruption eng current_node_id r = corruption_loop (map snd eng) current_node_id r"

text \<open>\<^verbatim>\<open>random.choice(seq)\<close> raises \<^verbatim>\<open>IndexError\<close> on an empty sequence and returns
  one of its elements otherwise.\<close>

definition random_choice :: "int list \<Rightarrow> rng \<Rightarrow> (py_error + int) \<times> rng" where
  "random_choice xs r =
     (if xs = [] then (Inl IndexError, r)
      else (Inr (xs ! (shd (picks r) mod length xs)), r\<lparr>picks := stl (picks r)\<rparr>))"

fun wrong_delivery_loop ::
  "anomaly list \<Rightarrow> int \<Rightarrow> int list \<Rightarrow> rng \<Rightarrow> (py_error + int option) \<times> rng" where
  "wrong_delivery_loop [] current_node_id available_nodes r = (Inr None, r)"
| "wrong_delivery_loop (a # as) current_node_id available_nodes r =
     (if in_scope WRONG_DELIVERY current_node_id a
      then (case should_apply_anomaly a r of
              (True, r') \<Rightarrow>
                (case random_choice available_nodes r' of
                   (Inl e, r'') \<Rightarrow> (Inl e, r'')
                 | (Inr wrong_destination, r'') \<Rightarrow> (Inr (Some wrong_destination), r''))
            | (False, r') \<Rightarrow> wrong_delivery_loop as current_node_id available_nodes r')
      else wrong_delivery_loop as current_node_id available_nodes r)"

definition apply_wrong_delivery ::
  "anomaly_engine \<Rightarrow> int \<Rightarrow> int list \<Rightarrow> rng \<Rightarrow> (py_error + int option) \<times> rng" where
  "apply_wrong_delivery eng current_node_id available_nodes r =
     wrong_delivery_loop (map snd eng) current_node_id available_nodes r"

section \<open>SimulationEngine\<close>

subsection \<open>Events, the registry and the task of a run\<close>

text \<open>
  The events handed to \<^verbatim>\<open>manager.broadcast_to_session\<close>, with the payload fields the
  engine fills in (time stamps are left out). All events of one run go to one session.
\<close>

datatype event =
    simulation_started string nat
  | simulation_completed string
  | simulation_error string py_error
  | packet_failed int string
  | packet_sent int int int "int list" int
  | packet_lost int int
  | packet_arrived int int int bool real
  | packet_misdelivered int int int
  | packet_delivered int int "int list"

text \<open>
  \<^verbatim>\<open>asyncio.create_task\<close> returns the task that runs \<^verbatim>\<open>_run_simulation\<close> for one
  simulation id. The engine object holds the two dictionaries; the event loop holds, for
  every task, whether \<^verbatim>\<open>cancel()\<close> was called on it.
\<close>

datatype task = Task string

record world =
  active_simulations :: "string \<rightharpoonup> bool"
  simulation_tasks :: "string \<rightharpoonup> task"
  cancel_requested :: "task set"

definition engine_init :: world where
  "engine_init = \<lparr>active_simulations = Map.empty, simulation_tasks = Map.empty,
                  cancel_requested = {}\<rparr>"

text \<open>
  \<^verbatim>\<open>start_simulation\<close>, given the value \<^verbatim>\<open>uuid.uuid4()\<close> returned. The graph and the
  anomaly engine it builds go to the task (see \<open>start_task\<close>); there is no
  \<^verbatim>\<open>await\<close> in its body, so it runs without interruption.
\<close>

definition start_simulation :: "string \<Rightarrow> world \<Rightarrow> string \<times> world" where
  "start_simulation simulation_id w =
     (let w1 = w\<lparr>active_simulations := (active_simulations w)(simulation_id \<mapsto> True)\<rparr>;
          w2 = w1\<lparr>simulation_tasks := (simulation_tasks w1)(simulation_id \<mapsto> Task simulation_id)\<rparr>
      in (simulation_id, w2))"

definition stop_simulation :: "string \<Rightarrow> world \<Rightarrow> world" where
  "stop_simulation simulation_id w =
     (if simulation_id \<in> dom (active_simulations w) then
        let w1 = w\<lparr>active_simulations := (active_simulations w)(simulation_id \<mapsto> False)\<rparr>;
            w2 = (case simulation_tasks w1 simulation_id of
                    Some t \<Rightarrow> w1\<lparr>cancel_requested := insert t (cancel_requested w1),
                                 simulation_tasks := (simulation_tasks w1)(simulation_id := None)\<rparr>
                  | None \<Rightarrow> w1)
        in w2\<lparr>active_simulations := (active_simulations w2)(simulation_id := None)\<rparr>
      else w)"

text \<open>\<^verbatim>\<open>self.active_simulations.get(simulation_id, False)\<close>\<close>

definition is_active :: "world \<Rightarrow> string \<Rightarrow> bool" where
  "is_active w simulation_id =
     (case active_simulations w simulation_id of None \<Rightarrow> False | Some b \<Rightarrow> b)"

subsection \<open>The task as a state transformer\<close>

text \<open>
  What an observer of one run sees, in order: the events the run hands to the sink, and
  the calls of \<^verbatim>\<open>stop_simulation\<close> that other tasks make while the run is suspended.
\<close>

datatype obs = Emitted event | StopCall string

text \<open>
  The state a run task works on. \<open>sched\<close> lists, for each \<^verbatim>\<open>await\<close> the task
  reaches, in order, the simulation ids on which other tasks call \<^verbatim>\<open>stop_simulation\<close>
  while the task is suspended there (none once the list is used up).
\<close>

record rstate =
  world :: world
  sched :: "string list list"
  rng :: rng
  trace :: "obs list"

type_synonym 'a prog = "rstate \<Rightarrow> (py_error + 'a) \<times> rstate"

definition ret :: "'a \<Rightarrow> 'a prog" where
  "ret x = (\<lambda>st. (Inr x, st))"

definition raise :: "py_error \<Rightarrow> 'a prog" where
  "raise e = (\<lambda>st. (Inl e, st))"

definition bnd :: "'a prog \<Rightarrow> ('a \<Rightarrow> 'b prog) \<Rightarrow> 'b prog" where
  "bnd p f = (\<lambda>st. case p st of (Inl e, st') \<Rightarrow> (Inl e, st') | (Inr x, st') \<Rightarrow> f x st')"

definition with_rng :: "(rng \<Rightarrow> 'a \<times> rng) \<Rightarrow> 'a prog" where
  "with_rng f = (\<lambda>st. case f (rng st) of (x, r) \<Rightarrow> (Inr x, st\<lparr>rng := r\<rparr>))"

definition with_rng_err :: "(rng \<Rightarrow> (py_error + 'a) \<times> rng) \<Rightarrow> 'a prog" where
  "with_rng_err f = (\<lambda>st. case f (rng st) of (x, r) \<Rightarrow> (x, st\<lparr>rng := r\<rparr>))"

definition others_run :: "rstate \<Rightarrow> rstate" where
  "others_run st =
     (case sched st of
        [] \<Rightarrow> st
      | calls # rest \<Rightarrow>
          st\<lparr>world := fold stop_simulation calls (world st), sched := rest,
             trace := trace st @ map StopCall calls\<rparr>)"

text \<open>
  An \<^verbatim>\<open>await\<close> of the task of simulation \<open>simulation_id\<close>: the other tasks run; if one
  of them called \<^verbatim>\<open>cancel()\<close> on this task, the event loop resumes it by raising
  \<^verbatim>\<open>CancelledError\<close> at the \<^verbatim>\<open>await\<close>. \<^verbatim>\<open>CancelledError\<close> is no \<^verbatim>\<open>Exception\<close>,
  so the handler in \<^verbatim>\<open>send_to_session\<close> lets it pass.
\<close>

definition await :: "string \<Rightarrow> unit prog" where
  "await simulation_id =
     (\<lambda>st. let st' = others_run st
           in if Task simulation_id \<in> cancel_requested (world st')
              then (Inl CancelledError, st') else (Inr (), st'))"

text \<open>\<^verbatim>\<open>await manager.broadcast_to_session(session_id, event_type, data)\<close>\<close>

definition emit :: "string \<Rightarrow> event \<Rightarrow> unit prog" where
  "emit simulation_id ev =
     (\<lambda>st. await simulation_id (st\<lparr>trace := trace st @ [Emitted ev]\<rparr>))"

text \<open>\<^verbatim>\<open>await asyncio.sleep(seconds / speed_multiplier)\<close>: the quotient is computed
  first, and a float division by zero raises.\<close>

definition sleep :: "string \<Rightarrow> real \<Rightarrow> real \<Rightarrow> unit prog" where
  "sleep simulation_id seconds speed_multiplier =
     (if speed_multiplier = 0 then raise ZeroDivisionError else await simulation_id)"

subsection \<open>\<^verbatim>\<open>_simulate_message\<close>\<close>

datatype loop_exit = Returned | Fell_through

text \<open>
  The loop over the hops \<open>(chosen_path[i], chosen_path[i + 1])\<close>. \<open>Returned\<close> is the
  \<^verbatim>\<open>return\<close> after \<^verbatim>\<open>packet_lost\<close>; \<open>Fell_through\<close> is the end of the loop, by
  \<^verbatim>\<open>break\<close> or after the last hop. The edge dictionary always has its four keys, so
  it is never empty and \<^verbatim>\<open>latency\<close> is never defaulted.
\<close>

fun traverse ::
  "string \<Rightarrow> message \<Rightarrow> graph \<Rightarrow> anomaly_engine \<Rightarrow> real \<Rightarrow> (int \<times> int) list \<Rightarrow> loop_exit prog"
where
  "traverse sid m g eng speed [] st = (Inr Fell_through, st)"
| "traverse sid m g eng speed ((current_node, next_node) # hops) st =
     (if \<not> is_active (world st) sid then (Inr Fell_through, st)
      else (case get_connection_info g current_node next_node of
              None \<Rightarrow> traverse sid m g eng speed hops st
            | Some connection_info \<Rightarrow>
                (let base_delay = ed_latency connection_info / 1000 in
                 bnd (with_rng (apply_packet_loss eng current_node)) (\<lambda>lost.
                   if lost then
                     bnd (emit sid (packet_lost (m_id m) current_node)) (\<lambda>_. ret Returned)
                   else
                     bnd (with_rng_err (apply_delay eng current_node (base_delay * 1000))) (\<lambda>d.
                     let actual_delay = d / 1000 in
                     bnd (with_rng (apply_corruption eng current_node)) (\<lambda>is_corrupted.
                     bnd (emit sid (packet_arrived (m_id m) next_node current_node is_corrupted
                                      (actual_delay * 1000))) (\<lambda>_.
                     bnd (sleep sid actual_delay speed) (\<lambda>_.
                     traverse sid m g eng speed hops)))))) st))"

text \<open>The code after the loop. \<^verbatim>\<open>if wrong_destination and ...\<close> tests the truth value
  of an optional integer: \<^verbatim>\<open>None\<close> and \<^verbatim>\<open>0\<close> are false.\<close>

definition finish_delivery ::
  "string \<Rightarrow> message \<Rightarrow> graph \<Rightarrow> anomaly_engine \<Rightarrow> int list \<Rightarrow> unit prog" where
  "finish_delivery sid m g eng chosen_path =
     (case chosen_path of
        [] \<Rightarrow> raise IndexError
      | _ # _ \<Rightarrow>
          bnd (with_rng_err (apply_wrong_delivery eng (last chosen_path) (nx_nodes g)))
            (\<lambda>wrong_destination.
               case wrong_destination of
                 None \<Rightarrow>
                   emit sid (packet_delivered (m_id m) (m_destination_node_id m) chosen_path)
               | Some w \<Rightarrow>
                   if w \<noteq> 0 \<and> w \<noteq> m_destination_node_id m
                   then emit sid (packet_misdelivered (m_id m) (m_destination_node_id m) w)
                   else emit sid (packet_delivered (m_id m) (m_destination_node_id m)
                                    chosen_path)))"

definition hops_of :: "int list \<Rightarrow> (int \<times> int) list" where
  "hops_of chosen_path = zip chosen_path (tl chosen_path)"

definition simulate_message ::
  "string \<Rightarrow> message \<Rightarrow> graph \<Rightarrow> anomaly_engine \<Rightarrow> real \<Rightarrow> unit prog" where
  "simulate_message sid m g eng speed =
     (case find_all_paths g (m_source_node_id m) (m_destination_node_id m) 3 of
        [] \<Rightarrow> emit sid (packet_failed (m_id m) ''No path available'')
      | chosen_path # _ \<Rightarrow>
          bnd (emit sid (packet_sent (m_id m) (m_source_node_id m) (m_destination_node_id m)
                           chosen_path (m_packet_size_bytes m))) (\<lambda>_.
          bnd (traverse sid m g eng speed (hops_of chosen_path)) (\<lambda>ex.
            case ex of
              Returned \<Rightarrow> ret ()
            | Fell_through \<Rightarrow> finish_delivery sid m g eng chosen_path)))"

subsection \<open>\<^verbatim>\<open>_run_simulation\<close>\<close>

fun run_messages ::
  "string \<Rightarrow> graph \<Rightarrow> anomaly_engine \<Rightarrow> real \<Rightarrow> message list \<Rightarrow> unit prog" where
  "run_messages sid g eng speed [] st = (Inr (), st)"
| "run_messages sid g eng speed (m # ms) st =
     (if \<not> is_active (world st) sid then (Inr (), st)
      else bnd (simulate_message sid m g eng speed) (\<lambda>_.
           bnd (sleep sid (1 / 10) speed) (\<lambda>_.
           run_messages sid g eng speed ms)) st)"

text \<open>The body of the \<^verbatim>\<open>try\<close>.\<close>

definition run_body ::
  "string \<Rightarrow> message list \<Rightarrow> graph \<Rightarrow> anomaly_engine \<Rightarrow> real \<Rightarrow> unit prog" where
  "run_body sid messages g eng speed =
     bnd (emit sid (simulation_started sid (length messages))) (\<lambda>_.
     bnd (run_messages sid g eng speed messages) (\<lambda>_.
     emit sid (simulation_completed sid)))"

text \<open>The \<^verbatim>\<open>finally\<close> clause.\<close>

definition teardown :: "string \<Rightarrow> world \<Rightarrow> world" where
  "teardown simulation_id w =
     (let w1 = (if simulation_id \<in> dom (active_simulations w)
                then w\<lparr>active_simulations := (active_simulations w)(simulation_id := None)\<rparr>
                else w)
      in if simulation_id \<in> dom (simulation_tasks w1)
         then w1\<lparr>simulation_tasks := (simulation_tasks w1)(simulation_id := None)\<rparr>
         else w1)"

text \<open>
  The whole coroutine: \<^verbatim>\<open>CancelledError\<close> is logged and swallowed, any other exception
  is reported (the report is an \<^verbatim>\<open>await\<close> again and may itself be cancelled), and the
  \<^verbatim>\<open>finally\<close> clause runs on every way out. The result is the exception that leaves
  the task, if any.
\<close>

definition run_simulation ::
  "string \<Rightarrow> message list \<Rightarrow> graph \<Rightarrow> anomaly_engine \<Rightarrow> real \<Rightarrow> unit prog" where
  "run_simulation sid messages g eng speed =
     (\<lambda>st. case (case run_body sid messages g eng speed st of
                   (Inl CancelledError, st1) \<Rightarrow> (Inr (), st1)
                 | (Inl e, st1) \<Rightarrow> emit sid (simulation_error sid e) st1
                 | (Inr u, st1) \<Rightarrow> (Inr u, st1)) of
             (r, st2) \<Rightarrow> (r, st2\<lparr>world := teardown sid (world st2)\<rparr>))"

text \<open>The task \<^verbatim>\<open>start_simulation\<close> creates for its arguments.\<close>

definition start_task ::
  "string \<Rightarrow> message list \<Rightarrow> node list \<Rightarrow> connection list \<Rightarrow> anomaly list \<Rightarrow> real \<Rightarrow> unit prog"
where
  "start_task sid messages nodes connections anomalies speed =
     run_simulation sid messages (build_from_session_data nodes connections)
       (anomaly_engine_init anomalies) speed"

section \<open>Predicates of the statements\<close>

text \<open>The registry is consistent when both dictionaries of the engine have the same
  keys.\<close>

definition consistent :: "world \<Rightarrow> bool" where
  "consistent w = (dom (active_simulations w) = dom (simulation_tasks w))"


text \<open>A walk of the graph: consecutive vertices are joined by an edge.\<close>

fun is_walk :: "graph \<Rightarrow> int list \<Rightarrow> bool" where
  "is_walk g [] = True"
| "is_walk g [x] = True"
| "is_walk g (x # y # r) = (nx_has_edge g x y \<and> is_walk g (y # r))"

section \<open>Rows for examples\<close>

definition mk_node :: "int \<Rightarrow> string \<Rightarrow> node" where
  "mk_node i nm = \<lparr>n_id = i, n_name = nm, n_node_type = ''router'', n_status = ''active'',
                   n_x_position = 0, n_y_position = 0\<rparr>"

definition mk_connection :: "int \<Rightarrow> int \<Rightarrow> int \<Rightarrow> string \<Rightarrow> connection" where
  "mk_connection i a b st = \<lparr>c_id = i, c_source_node_id = a, c_destination_node_id = b,
                             c_connection_type = ''ethernet'', c_bandwidth_mbps = 100,
                             c_latency_ms = 10, c_status = st\<rparr>"

definition mk_message :: "int \<Rightarrow> int \<Rightarrow> int \<Rightarrow> message" where
  "mk_message i a b = \<lparr>m_id = i, m_source_node_id = a, m_destination_node_id = b,
                       m_packet_size_bytes = 1024\<rparr>"

text \<open>The rules of one kind whose scope covers a node, in the order of the engine's
  dictionary.\<close>

definition matching_rules :: "anomaly_type \<Rightarrow> int \<Rightarrow> anomaly_engine \<Rightarrow> anomaly list" where
  "matching_rules ty current_node_id eng = filter (in_scope ty current_node_id) (map snd eng)"

definition mk_anomaly ::
  "int \<Rightarrow> anomaly_type \<Rightarrow> int option \<Rightarrow> real \<Rightarrow> (string \<times> json) list option \<Rightarrow> anomaly" where
  "mk_anomaly i ty n p ps = \<lparr>a_id = i, a_anomaly_type = ty, a_affected_node_id = n,
                             a_probability = p, a_parameters = ps, a_is_active = True\<rparr>"

(*PROPERTIES*)
section \<open>Topology without active connections\<close>






section \<open>The registry of runs\<close>

lemma stop_unknown: "sid \<notin> dom (active_simulations w) \<Longrightarrow> stop_simulation sid w = w"
  by (simp add: stop_simulation_def)

lemma stop_removes: "sid \<notin> dom (active_simulations (stop_simulation sid w))"
  by (auto simp: stop_simulation_def Let_def split: option.splits)

text \<open>
  Claim C8: stopping a run id that is not in the registry of active runs changes nothing,
  neither the two dictionaries nor the cancellation requests; hence a second stop of the
  same id is without effect.
\<close>

theorem stop_simulation_idempotent:
  "(sid \<notin> dom (active_simulations w) \<longrightarrow> stop_simulation sid w = w)
   \<and> stop_simulation sid (stop_simulation sid w) = stop_simulation sid w"
  using stop_removes stop_unknown by blast

theorem stop_simulation_idempotent_witness:
  "''run-1'' \<notin> dom (active_simulations
       (stop_simulation ''run-1'' (snd (start_simulation ''run-1'' engine_init))))
   \<and> stop_simulation ''run-1''
       (stop_simulation ''run-1'' (snd (start_simulation ''run-1'' engine_init)))
     = stop_simulation ''run-1'' (snd (start_simulation ''run-1'' engine_init))
   \<and> cancel_requested
       (stop_simulation ''run-1'' (snd (start_simulation ''run-1'' engine_init)))
     = {Task ''run-1''}"
  using stop_simulation_idempotent
    [of "''run-1''" "stop_simulation ''run-1'' (snd (start_simulation ''run-1'' engine_init))"]
  by (simp add: stop_simulation_def start_simulation_def engine_init_def Let_def)

section \<open>Building the graph\<close>

lemma node_keep_touch: "map_of (g_node g) n = Some x \<Longrightarrow> map_of (g_node (nx_touch e g)) n = Some x"
  by (auto simp: nx_touch_def)

lemma node_set_adj [simp]: "g_node (nx_set_adj u v d g) = g_node g"
  by (simp add: nx_set_adj_def)

lemma has_node_set_adj [simp]: "nx_has_node (nx_set_adj u v d g) n = nx_has_node g n"
  by (simp add: nx_has_node_def)

lemma touch_new: "\<not> nx_has_node g e \<Longrightarrow> map_of (g_node (nx_touch e g)) e = Some None"
  by (auto simp: nx_touch_def nx_has_node_def map_add_def)

lemma touch_has: "nx_has_node (nx_touch e g) e"
  by (auto simp: nx_touch_def nx_has_node_def map_add_def)

lemma has_node_touch: "nx_has_node g n \<Longrightarrow> nx_has_node (nx_touch e g) n"
  by (auto simp: nx_touch_def nx_has_node_def)

lemma node_keep_add_edge:
  "map_of (g_node g) n = Some x \<Longrightarrow> map_of (g_node (nx_add_edge u v d g)) n = Some x"
  by (simp add: nx_add_edge_def node_keep_touch)

lemma add_edge_new_node:
  assumes "\<not> nx_has_node g e" "e = u \<or> e = v"
  shows "map_of (g_node (nx_add_edge u v d g)) e = Some None"
proof (cases "e = u")
  case True
  then show ?thesis using assms(1) by (simp add: nx_add_edge_def node_keep_touch touch_new)
next
  case False
  then have ev: "e = v" using assms(2) by simp
  have "\<not> nx_has_node (nx_touch u g) e" using False assms(1)
    by (auto simp: nx_touch_def nx_has_node_def)
  then show ?thesis using ev by (simp add: nx_add_edge_def touch_new)
qed

lemma neighbors_touch: "map_of (nx_neighbors g a) b = Some x \<Longrightarrow> map_of (nx_neighbors (nx_touch e g) a) b = Some x"
  by (auto simp: nx_touch_def nx_neighbors_def split: option.splits)

lemma neighbors_set_adj:
  "nx_neighbors (nx_set_adj u v d g) a = (if a = u then AList.update v d (nx_neighbors g u) else nx_neighbors g a)"
  by (simp add: nx_set_adj_def nx_neighbors_def update_conv')

lemma has_edge_touch: "nx_has_edge g a b \<Longrightarrow> nx_has_edge (nx_touch e g) a b"
  by (auto simp: nx_has_edge_def dest: neighbors_touch)

lemma has_edge_set_adj: "nx_has_edge g a b \<Longrightarrow> nx_has_edge (nx_set_adj u v d g) a b"
  by (auto simp: nx_has_edge_def neighbors_set_adj update_conv')

lemma has_edge_set_adj_new: "nx_has_edge (nx_set_adj u v d g) u v"
  by (auto simp: nx_has_edge_def neighbors_set_adj update_conv')

lemma has_edge_add_edge_keep: "nx_has_edge g a b \<Longrightarrow> nx_has_edge (nx_add_edge u v d g) a b"
  by (simp add: nx_add_edge_def has_edge_touch has_edge_set_adj)

lemma has_edge_add_edge_new: "nx_has_edge (nx_add_edge u v d g) u v \<and> nx_has_edge (nx_add_edge u v d g) v u"
  by (simp add: nx_add_edge_def has_edge_set_adj has_edge_set_adj_new)

lemma has_node_add_edge_new: "nx_has_node (nx_add_edge u v d g) u \<and> nx_has_node (nx_add_edge u v d g) v"
  by (simp add: nx_add_edge_def touch_has has_node_touch)

lemma has_node_add_edge_keep: "nx_has_node g n \<Longrightarrow> nx_has_node (nx_add_edge u v d g) n"
  by (simp add: nx_add_edge_def has_node_touch)

lemma fold_conn_node_keep:
  "map_of (g_node g) n = Some x \<Longrightarrow> map_of (g_node (fold add_connection cs g)) n = Some x"
  by (induction cs arbitrary: g) (auto simp: add_connection_def node_keep_add_edge)

lemma fold_conn_edge_keep:
  "nx_has_edge g a b \<Longrightarrow> nx_has_edge (fold add_connection cs g) a b"
  by (induction cs arbitrary: g) (auto simp: add_connection_def has_edge_add_edge_keep)

lemma fold_conn_has_node_keep:
  "nx_has_node g n \<Longrightarrow> nx_has_node (fold add_connection cs g) n"
  by (induction cs arbitrary: g) (auto simp: add_connection_def has_node_add_edge_keep)

lemma fold_conn_edge:
  assumes "c \<in> set cs" "c_status c = ''active''"
  shows "nx_has_edge (fold add_connection cs g) (c_source_node_id c) (c_destination_node_id c)
       \<and> nx_has_edge (fold add_connection cs g) (c_destination_node_id c) (c_source_node_id c)"
  using assms
proof (induction cs arbitrary: g)
  case Nil then show ?case by simp
next
  case (Cons a cs)
  show ?case
  proof (cases "a = c")
    case True
    have "add_connection c g = nx_add_edge (c_source_node_id c) (c_destination_node_id c) (edge_attrs c) g"
      using Cons.prems(2) by (simp add: add_connection_def)
    then show ?thesis using True
      by (simp add: has_edge_add_edge_new fold_conn_edge_keep)
  next
    case False
    then show ?thesis using Cons by simp
  qed
qed

lemma fold_conn_new_node:
  assumes "c \<in> set cs" "c_status c = ''active''" "e = c_source_node_id c \<or> e = c_destination_node_id c"
   "\<not> nx_has_node g e"
  shows "map_of (g_node (fold add_connection cs g)) e = Some None"
  using assms
proof (induction cs arbitrary: g)
  case Nil then show ?case by simp
next
  case (Cons a cs)
  show ?case
  proof (cases "nx_has_node (add_connection a g) e")
    case True
    have "map_of (g_node (add_connection a g)) e = Some None"
    proof (cases "c_status a = ''active'' \<and> (e = c_source_node_id a \<or> e = c_destination_node_id a)")
      case True
      then show ?thesis using Cons.prems(4) by (simp add: add_connection_def add_edge_new_node)
    next
      case False
      have "\<not> nx_has_node (add_connection a g) e"
        using False Cons.prems(4)
        by (auto simp: add_connection_def nx_add_edge_def nx_touch_def nx_has_node_def)
      then show ?thesis using True by simp
    qed
    then show ?thesis by (simp add: fold_conn_node_keep)
  next
    case False
    then have "a \<noteq> c" using Cons.prems(2,3)
      by (auto simp: add_connection_def has_node_add_edge_new)
    then show ?thesis using Cons False by simp
  qed
qed

lemma fold_nodes_keys:
  "nx_has_node (fold (\<lambda>n. nx_add_node (n_id n) (node_attrs n)) nodes g) e
     \<longleftrightarrow> nx_has_node g e \<or> e \<in> n_id ` set nodes"
  by (induction nodes arbitrary: g)
     (auto simp: nx_add_node_def nx_has_node_def update_conv')

section \<open>The enumeration of simple paths\<close>

lemma is_walk_snoc:
  "is_walk g vis \<Longrightarrow> vis \<noteq> [] \<Longrightarrow> nx_has_edge g (last vis) c \<Longrightarrow> is_walk g (vis @ [c])"
  by (induction g vis rule: is_walk.induct) auto

lemma neighbor_edge: "c \<in> fst ` set (nx_neighbors g u) \<Longrightarrow> nx_has_edge g u c"
  by (auto simp: nx_has_edge_def weak_map_of_SomeI map_of_eq_None_iff)

lemma paths_shape:
  "p \<in> set (simple_paths_from k g t vis u) \<Longrightarrow> \<exists>mid. p = vis @ mid @ [t]"
proof (induction k arbitrary: vis u)
  case 0 then show ?case by simp
next
  case (Suc k)
  then obtain c where c: "c \<in> fst ` set (nx_neighbors g u)" "c \<notin> set vis"
     "(c = t \<and> p = vis @ [c]) \<or> (c \<noteq> t \<and> p \<in> set (simple_paths_from k g t (vis @ [c]) c))"
    by (auto split: if_splits)
  show ?case
  proof (cases "c = t")
    case True then show ?thesis using c by auto
  next
    case False
    then have "p \<in> set (simple_paths_from k g t (vis @ [c]) c)" using c by simp
    from Suc.IH[OF this] obtain mid where "p = (vis @ [c]) @ mid @ [t]" by blast
    then have "p = vis @ (c # mid) @ [t]" by simp
    then show ?thesis by blast
  qed
qed

lemma paths_distinct:
  "p \<in> set (simple_paths_from k g t vis u) \<Longrightarrow> distinct vis \<Longrightarrow> distinct p"
proof (induction k arbitrary: vis u)
  case 0 then show ?case by simp
next
  case (Suc k)
  then obtain c where c: "c \<in> fst ` set (nx_neighbors g u)" "c \<notin> set vis"
     "(c = t \<and> p = vis @ [c]) \<or> (c \<noteq> t \<and> p \<in> set (simple_paths_from k g t (vis @ [c]) c))"
    by (auto split: if_splits)
  show ?case
  proof (cases "c = t")
    case True then show ?thesis using c Suc.prems(2) by auto
  next
    case False
    then have "p \<in> set (simple_paths_from k g t (vis @ [c]) c)" using c by simp
    moreover have "distinct (vis @ [c])" using c Suc.prems(2) by simp
    ultimately show ?thesis by (rule Suc.IH)
  qed
qed

lemma paths_length:
  "p \<in> set (simple_paths_from k g t vis u) \<Longrightarrow> length p \<le> length vis + k"
proof (induction k arbitrary: vis u)
  case 0 then show ?case by simp
next
  case (Suc k)
  then obtain c where c: "c \<in> fst ` set (nx_neighbors g u)" "c \<notin> set vis"
     "(c = t \<and> p = vis @ [c]) \<or> (c \<noteq> t \<and> p \<in> set (simple_paths_from k g t (vis @ [c]) c))"
    by (auto split: if_splits)
  show ?case
  proof (cases "c = t")
    case True then show ?thesis using c by auto
  next
    case False
    then have "p \<in> set (simple_paths_from k g t (vis @ [c]) c)" using c by simp
    from Suc.IH[OF this] show ?thesis by simp
  qed
qed

lemma paths_walk:
  "p \<in> set (simple_paths_from k g t vis u) \<Longrightarrow> is_walk g vis \<Longrightarrow> vis \<noteq> [] \<Longrightarrow> last vis = u
     \<Longrightarrow> is_walk g p"
proof (induction k arbitrary: vis u)
  case 0 then show ?case by simp
next
  case (Suc k)
  then obtain c where c: "c \<in> fst ` set (nx_neighbors g u)" "c \<notin> set vis"
     "(c = t \<and> p = vis @ [c]) \<or> (c \<noteq> t \<and> p \<in> set (simple_paths_from k g t (vis @ [c]) c))"
    by (auto split: if_splits)
  have w: "is_walk g (vis @ [c])"
    using Suc.prems c(1) by (simp add: is_walk_snoc neighbor_edge)
  show ?case
  proof (cases "c = t")
    case True then show ?thesis using c w by auto
  next
    case False
    then have "p \<in> set (simple_paths_from k g t (vis @ [c]) c)" using c by simp
    then show ?thesis using w by (rule Suc.IH) simp_all
  qed
qed

lemma paths_direct:
  "nx_has_edge g u t \<Longrightarrow> t \<notin> set vis \<Longrightarrow> vis @ [t] \<in> set (simple_paths_from (Suc k) g t vis u)"
  by (auto simp: nx_has_edge_def map_of_eq_None_iff intro!: bexI[where x="(t, _)"])

lemma hd_sort_key_min:
  assumes "x \<in> set xs"
  shows "f (hd (sort_key f xs)) \<le> f x"
proof -
  have s: "sorted (map f (sort_key f xs))" by simp
  have ne: "sort_key f xs \<noteq> []" using assms by (metis empty_iff list.set(1) set_sort)
  then obtain y ys where y: "sort_key f xs = y # ys" by (cases "sort_key f xs") auto
  have "x \<in> set (y # ys)" using assms y by (metis set_sort)
  then show ?thesis using s y by auto
qed

section \<open>Connections to unknown nodes\<close>

lemma fold_conn_has_node:
  assumes "c \<in> set cs" "c_status c = ''active''"
  shows "nx_has_node (fold add_connection cs g) (c_source_node_id c)
       \<and> nx_has_node (fold add_connection cs g) (c_destination_node_id c)"
  using assms
proof (induction cs arbitrary: g)
  case Nil then show ?case by simp
next
  case (Cons a cs)
  show ?case
  proof (cases "a = c")
    case True
    have "add_connection c g = nx_add_edge (c_source_node_id c) (c_destination_node_id c) (edge_attrs c) g"
      using Cons.prems(2) by (simp add: add_connection_def)
    then show ?thesis using True
      by (simp add: has_node_add_edge_new fold_conn_has_node_keep)
  next
    case False
    then show ?thesis using Cons by simp
  qed
qed

lemma direct_route_first:
  assumes "nx_has_node g s" "nx_has_node g d" "nx_has_edge g s d" "s \<noteq> d" "0 < n"
  shows "find_all_paths g s d n \<noteq> [] \<and> hd (find_all_paths g s d n) = [s, d]"
proof -
  let ?ps = "simple_paths_from 10 g d [s] s"
  have mem: "[s, d] \<in> set ?ps"
    using paths_direct[of g s d "[s]" 9] assms(3,4) by (simp add: numeral_eq_Suc)
  then have ne: "sort_key length ?ps \<noteq> []" by (metis empty_iff list.set(1) set_sort)
  have "hd (sort_key length ?ps) \<in> set ?ps" using ne by (metis hd_in_set set_sort)
  then obtain mid where mid: "hd (sort_key length ?ps) = [s] @ mid @ [d]"
    using paths_shape by blast
  have "length (hd (sort_key length ?ps)) \<le> length [s, d]"
    using hd_sort_key_min[OF mem, of length] .
  then have "mid = []" using mid by simp
  then have h: "hd (sort_key length ?ps) = [s, d]" using mid by simp
  have fa: "find_all_paths g s d n = take n (sort_key length ?ps)"
    using assms(1,2,4) by (simp add: find_all_paths_def nx_all_simple_paths_def)
  show ?thesis using fa ne h assms(5) by (cases "sort_key length ?ps"; cases n) auto
qed

text \<open>
  Claim C10: an active connection with an endpoint that is not among the node snapshots
  still makes that endpoint a vertex, with no attributes, and adds the edge; the unknown
  node id is routable: the edge lookup finds the connection, and between the two
  endpoints (when they differ) the route chosen first is the direct one, either way.
\<close>

theorem unknown_endpoint_becomes_vertex:
  assumes "c \<in> set connections" "c_status c = ''active''"
    "e = c_source_node_id c \<or> e = c_destination_node_id c" "e \<notin> n_id ` set nodes"
  shows "map_of (g_node (build_from_session_data nodes connections)) e = Some None
    \<and> nx_has_edge (build_from_session_data nodes connections) (c_source_node_id c) (c_destination_node_id c)
    \<and> nx_has_edge (build_from_session_data nodes connections) (c_destination_node_id c) (c_source_node_id c)
    \<and> get_connection_info (build_from_session_data nodes connections) (c_source_node_id c) (c_destination_node_id c) \<noteq> None
    \<and> (c_source_node_id c \<noteq> c_destination_node_id c \<longrightarrow>
         hd (find_all_paths (build_from_session_data nodes connections) (c_source_node_id c) (c_destination_node_id c) 3)
           = [c_source_node_id c, c_destination_node_id c]
       \<and> hd (find_all_paths (build_from_session_data nodes connections) (c_destination_node_id c) (c_source_node_id c) 3)
           = [c_destination_node_id c, c_source_node_id c])"
proof -
  let ?base = "fold (\<lambda>n. nx_add_node (n_id n) (node_attrs n)) nodes nx_empty"
  let ?g = "build_from_session_data nodes connections"
  have g: "?g = fold add_connection connections ?base" by (simp add: build_from_session_data_def)
  have "\<not> nx_has_node nx_empty e" by (simp add: nx_has_node_def nx_empty_def)
  then have "\<not> nx_has_node ?base e" using assms(4) by (simp add: fold_nodes_keys)
  then have 1: "map_of (g_node ?g) e = Some None"
    unfolding g using assms(1,2,3) fold_conn_new_node by blast
  have 2: "nx_has_edge ?g (c_source_node_id c) (c_destination_node_id c)
         \<and> nx_has_edge ?g (c_destination_node_id c) (c_source_node_id c)"
    unfolding g using assms(1,2) by (rule fold_conn_edge)
  have 3: "nx_has_node ?g (c_source_node_id c) \<and> nx_has_node ?g (c_destination_node_id c)"
    unfolding g using assms(1,2) by (rule fold_conn_has_node)
  have 4: "get_connection_info ?g (c_source_node_id c) (c_destination_node_id c) \<noteq> None"
    using 2 by (simp add: get_connection_info_def nx_has_edge_def)
  have 5: "c_source_node_id c \<noteq> c_destination_node_id c \<Longrightarrow>
      hd (find_all_paths ?g (c_source_node_id c) (c_destination_node_id c) 3) = [c_source_node_id c, c_destination_node_id c]
    \<and> hd (find_all_paths ?g (c_destination_node_id c) (c_source_node_id c) 3) = [c_destination_node_id c, c_source_node_id c]"
    using 2 3 direct_route_first[of ?g _ _ 3] by (metis zero_less_numeral)
  show ?thesis using 1 2 4 5 by blast
qed

theorem unknown_endpoint_becomes_vertex_witness:
  "map_of (g_node (build_from_session_data [mk_node 1 ''A'']
                     [mk_connection 5 1 9 ''active''])) 9 = Some None
   \<and> nx_has_edge (build_from_session_data [mk_node 1 ''A'']
                     [mk_connection 5 1 9 ''active'']) 9 1
   \<and> hd (find_all_paths (build_from_session_data [mk_node 1 ''A'']
                            [mk_connection 5 1 9 ''active'']) 1 9 3) = [1, 9]"
  using unknown_endpoint_becomes_vertex
    [of "mk_connection 5 1 9 ''active''" "[mk_connection 5 1 9 ''active'']" 9
        "[mk_node 1 ''A'']"]
  by (simp add: mk_connection_def mk_node_def)

section \<open>The delay rule scan\<close>

lemma rng_upd2 [simp]: "r\<lparr>draws := a\<rparr>\<lparr>draws := b\<rparr> = r\<lparr>draws := b\<rparr>"
  by simp

lemma delay_loop_none:
  "(\<forall>i<length (filter (in_scope DELAY cur) as).
       \<not> draws r !! i < a_probability (filter (in_scope DELAY cur) as ! i))
   \<Longrightarrow> delay_loop as cur base r
       = (Inr base, r\<lparr>draws := sdrop (length (filter (in_scope DELAY cur) as)) (draws r)\<rparr>)"
proof (induction as arbitrary: r)
  case Nil
  then show ?case by simp
next
  case (Cons a as)
  show ?case
  proof (cases "in_scope DELAY cur a")
    case False
    then show ?thesis using Cons by simp
  next
    case True
    let ?r = "r\<lparr>draws := stl (draws r)\<rparr>"
    have miss: "\<not> shd (draws r) < a_probability a" using Cons.prems True by force
    have "\<forall>i<length (filter (in_scope DELAY cur) as).
       \<not> draws ?r !! i < a_probability (filter (in_scope DELAY cur) as ! i)"
      using Cons.prems True by force
    from Cons.IH[OF this] show ?thesis using True miss
      by (simp add: should_apply_anomaly_def)
  qed
qed

lemma delay_loop_fire:
  "k < length (filter (in_scope DELAY cur) as) \<Longrightarrow>
   draws r !! k < a_probability (filter (in_scope DELAY cur) as ! k) \<Longrightarrow>
   (\<forall>i<k. \<not> draws r !! i < a_probability (filter (in_scope DELAY cur) as ! i))
   \<Longrightarrow> delay_loop as cur base r
       = (case additional_delay_ms (filter (in_scope DELAY cur) as ! k) of
            Inl e \<Rightarrow> Inl e | Inr v \<Rightarrow> float_add base v,
          r\<lparr>draws := sdrop (Suc k) (draws r)\<rparr>)"
proof (induction as arbitrary: r k)
  case Nil
  then show ?case by simp
next
  case (Cons a as)
  show ?case
  proof (cases "in_scope DELAY cur a")
    case False
    then show ?thesis using Cons by simp
  next
    case True
    let ?r = "r\<lparr>draws := stl (draws r)\<rparr>"
    show ?thesis
    proof (cases k)
      case 0
      then have "shd (draws r) < a_probability a" using Cons.prems True by simp
      then show ?thesis using True 0
        by (simp add: should_apply_anomaly_def split: sum.splits)
    next
      case (Suc j)
      have miss: "\<not> shd (draws r) < a_probability a" using Cons.prems(3) True Suc by force
      have 1: "j < length (filter (in_scope DELAY cur) as)" using Cons.prems(1) True Suc by simp
      have 2: "draws ?r !! j < a_probability (filter (in_scope DELAY cur) as ! j)"
        using Cons.prems(2) True Suc by simp
      have 3: "\<forall>i<j. \<not> draws ?r !! i < a_probability (filter (in_scope DELAY cur) as ! i)"
        using Cons.prems(3) True Suc by force
      from Cons.IH[OF 1 2 3] show ?thesis using True miss Suc
        by (simp add: should_apply_anomaly_def)
    qed
  qed
qed

lemma update_new_key: "k \<notin> fst ` set al \<Longrightarrow> AList.update k v al = al @ [(k, v)]"
  by (induction al) auto

lemma fold_update_distinct:
  "distinct (map a_id as) \<Longrightarrow> a_id ` set as \<inter> fst ` set acc = {} \<Longrightarrow>
   fold (\<lambda>a. AList.update (a_id a) a) as acc = acc @ map (\<lambda>a. (a_id a, a)) as"
proof (induction as arbitrary: acc)
  case Nil then show ?case by simp
next
  case (Cons a as)
  have u: "AList.update (a_id a) a acc = acc @ [(a_id a, a)]"
    using Cons.prems(2) by (simp add: update_new_key)
  have "a_id ` set as \<inter> fst ` set (acc @ [(a_id a, a)]) = {}"
    using Cons.prems by auto
  with Cons.IH[of "acc @ [(a_id a, a)]"] Cons.prems(1) u show ?case by simp
qed

lemma engine_values:
  "distinct (map a_id anomalies) \<Longrightarrow>
   map snd (anomaly_engine_init anomalies) = filter a_is_active anomalies"
proof -
  assume d: "distinct (map a_id anomalies)"
  then have "distinct (map a_id (filter a_is_active anomalies))"
    by (simp add: distinct_map_filter)
  then have "fold (\<lambda>a. AList.update (a_id a) a) (filter a_is_active anomalies) []
     = [] @ map (\<lambda>a. (a_id a, a)) (filter a_is_active anomalies)"
    by (rule fold_update_distinct) simp
  then show ?thesis by (simp add: anomaly_engine_init_def comp_def)
qed

section \<open>Queries on a topology without active connections\<close>








section \<open>What the delay scan returns\<close>

text \<open>
  The scan of \<^verbatim>\<open>apply_delay\<close> in full. The values of the engine's dictionary are the
  active anomalies in the order given (when their ids differ). Only rules of kind delay
  with no affected node, or with the current node as affected node, draw a number, one
  each, in that order. When none of them fires the base delay comes back unchanged. The
  first one that fires ends the scan, and no number is drawn for a later rule: with a
  dictionary of parameters the base delay grows by the number under
  \<^verbatim>\<open>additional_delay_ms\<close> (by 1000 without that key), a value there that is no
  number raises \<^verbatim>\<open>TypeError\<close>, and without a dictionary the call raises
  \<^verbatim>\<open>AttributeError\<close>.
\<close>

lemma delay_scan_result:
  fixes eng :: anomaly_engine and cur :: int
  defines "ms \<equiv> filter (\<lambda>a. a_anomaly_type a = DELAY \<and>
                 (a_affected_node_id a = None \<or> a_affected_node_id a = Some cur)) (map snd eng)"
  shows "(distinct (map a_id anomalies) \<longrightarrow>
            map snd (anomaly_engine_init anomalies) = filter a_is_active anomalies)
       \<and> ((\<forall>i<length ms. \<not> draws r !! i < a_probability (ms ! i)) \<longrightarrow>
            apply_delay eng cur base r = (Inr base, r\<lparr>draws := sdrop (length ms) (draws r)\<rparr>))
       \<and> (k < length ms \<and> draws r !! k < a_probability (ms ! k)
            \<and> (\<forall>i<k. \<not> draws r !! i < a_probability (ms ! i)) \<longrightarrow>
            apply_delay eng cur base r
              = (case a_parameters (ms ! k) of
                   None \<Rightarrow> Inl AttributeError
                 | Some ps \<Rightarrow>
                     (case map_of ps ''additional_delay_ms'' of
                        None \<Rightarrow> Inr (base + 1000)
                      | Some (JNumber y) \<Rightarrow> Inr (base + y)
                      | Some (JBool b) \<Rightarrow> Inr (base + (if b then 1 else 0))
                      | Some (JString _) \<Rightarrow> Inl TypeError
                      | Some JNull \<Rightarrow> Inl TypeError
                      | Some JOther \<Rightarrow> Inl TypeError),
                 r\<lparr>draws := sdrop (Suc k) (draws r)\<rparr>))"
proof -
  have ms: "ms = filter (in_scope DELAY cur) (map snd eng)"
    unfolding ms_def in_scope_def ..
  have 1: "distinct (map a_id anomalies) \<Longrightarrow>
      map snd (anomaly_engine_init anomalies) = filter a_is_active anomalies"
    by (rule engine_values)
  have 2: "apply_delay eng cur base r = (Inr base, r\<lparr>draws := sdrop (length ms) (draws r)\<rparr>)"
    if "\<forall>i<length ms. \<not> draws r !! i < a_probability (ms ! i)"
    using that unfolding ms apply_delay_def by (rule delay_loop_none)
  have 3: "apply_delay eng cur base r
              = (case a_parameters (ms ! k) of
                   None \<Rightarrow> Inl AttributeError
                 | Some ps \<Rightarrow>
                     (case map_of ps ''additional_delay_ms'' of
                        None \<Rightarrow> Inr (base + 1000)
                      | Some (JNumber y) \<Rightarrow> Inr (base + y)
                      | Some (JBool b) \<Rightarrow> Inr (base + (if b then 1 else 0))
                      | Some (JString _) \<Rightarrow> Inl TypeError
                      | Some JNull \<Rightarrow> Inl TypeError
                      | Some JOther \<Rightarrow> Inl TypeError),
                 r\<lparr>draws := sdrop (Suc k) (draws r)\<rparr>)"
    if a: "k < length ms \<and> draws r !! k < a_probability (ms ! k)
            \<and> (\<forall>i<k. \<not> draws r !! i < a_probability (ms ! i))"
  proof -
    have "delay_loop (map snd eng) cur base r
       = (case additional_delay_ms (ms ! k) of Inl e \<Rightarrow> Inl e | Inr v \<Rightarrow> float_add base v,
          r\<lparr>draws := sdrop (Suc k) (draws r)\<rparr>)"
      using a unfolding ms by (intro delay_loop_fire) auto
    then show ?thesis
      by (simp add: apply_delay_def additional_delay_ms_def float_add_def
          split: option.splits json.splits)
  qed
  show ?thesis using 1 2 3 by blast
qed

text \<open>
  Claim C6 says that the first matching rule that fires adds its
  \<^verbatim>\<open>additional_delay_ms\<close>, 1000 when the parameter is absent. For a firing delay rule
  whose \<^verbatim>\<open>parameters\<close> is null (the API's \<^verbatim>\<open>AnomalyCreate\<close> accepts it and the column
  stores it) the parameter is absent, yet the call raises \<^verbatim>\<open>AttributeError\<close> and adds
  nothing: here with base delay 10 at node 4, the only rule firing on the first draw.
\<close>

theorem delay_null_parameters_raises:
  "apply_delay (anomaly_engine_init [mk_anomaly 1 DELAY None 1 None]) 4 10
     \<lparr>draws = sconst 0, picks = sconst 0\<rparr>
   = (Inl AttributeError, \<lparr>draws = sconst 0, picks = sconst 0\<rparr>)"
  by (simp add: apply_delay_def anomaly_engine_init_def mk_anomaly_def in_scope_def
      should_apply_anomaly_def additional_delay_ms_def)

end
